theory Spec2Isabelle
  imports Complex_Main "HOL-Library.Log_Nat"
begin

section \<open>Python numbers\<close>

text \<open>
  The renderers mix Python integers (unbounded, modelled as \<^typ>\<open>int\<close>) with Python
  floats. A float is an IEEE 754 binary64 value; it is modelled by the rational number it
  denotes, and every float operation rounds its exact result to the nearest binary64 value,
  ties to even (\<open>fl\<close>). The exponent range is not modelled: all magnitudes that occur for
  image sizes below \<open>2^31\<close> lie far inside the normal range of binary64.
\<close>

datatype py_error = ZeroDivisionError | ValueError | OSError | AttributeError

type_synonym pyfloat = rat

definition round_half_even :: "rat \<Rightarrow> int" where
  "round_half_even y =
     (let f = \<lfloor>y\<rfloor>; r = y - of_int f
      in if r < 1 / 2 then f else if 1 / 2 < r then f + 1 else if even f then f else f + 1)"

definition ilog2 :: "rat \<Rightarrow> int" where
  \<comment> \<open>\<open>\<lfloor>log\<^sub>2 x\<rfloor>\<close> for positive \<open>x\<close>, computed from the bit lengths of numerator and denominator\<close>
  "ilog2 x =
     (case quotient_of x of (p, q) \<Rightarrow>
        let d = bitlen p - bitlen q in if 2 powi d \<le> x then d else d - 1)"

definition fl :: "rat \<Rightarrow> pyfloat" where
  \<comment> \<open>round to 53 significant bits: the unit in the last place of \<open>x\<close> is \<open>2 powi (ilog2 \<bar>x\<bar> - 52)\<close>\<close>
  "fl x =
     (if x = 0 then 0
      else let u = 2 powi (ilog2 \<bar>x\<bar> - 52) in of_int (round_half_even (x / u)) * u)"

definition float_of_int :: "int \<Rightarrow> pyfloat" where
  \<comment> \<open>the implicit conversion of an \<open>int\<close> operand in mixed arithmetic, and \<open>float(n)\<close>\<close>
  "float_of_int n = fl (of_int n)"

definition fmul :: "pyfloat \<Rightarrow> pyfloat \<Rightarrow> pyfloat" where
  "fmul a b = fl (a * b)"

definition fsub :: "pyfloat \<Rightarrow> pyfloat \<Rightarrow> pyfloat" where
  "fsub a b = fl (a - b)"

definition fdiv :: "pyfloat \<Rightarrow> pyfloat \<Rightarrow> pyfloat" where
  \<comment> \<open>true division by a divisor known to be non-zero (the literals \<open>100.0\<close> and \<open>2\<close>)\<close>
  "fdiv a b = fl (a / b)"

definition truediv :: "pyfloat \<Rightarrow> pyfloat \<Rightarrow> py_error + pyfloat" where
  "truediv a b = (if b = 0 then Inl ZeroDivisionError else Inr (fdiv a b))"

definition py_int :: "pyfloat \<Rightarrow> int" where
  \<comment> \<open>\<open>int(x)\<close> truncates toward zero\<close>
  "py_int x = (if 0 \<le> x then \<lfloor>x\<rfloor> else \<lceil>x\<rceil>)"


subsection \<open>Rounding to the nearest integer\<close>

lemma rhe_cases:
  "round_half_even y = \<lfloor>y\<rfloor> \<or> round_half_even y = \<lfloor>y\<rfloor> + 1"
  by (simp add: round_half_even_def Let_def)

lemma rhe_err: "\<bar>of_int (round_half_even y) - y\<bar> \<le> 1 / 2"
proof -
  have "of_int \<lfloor>y\<rfloor> \<le> y" "y < of_int \<lfloor>y\<rfloor> + 1" by linarith+
  then show ?thesis
    by (auto simp: round_half_even_def Let_def abs_le_iff)
qed

lemma rhe_int [simp]: "round_half_even (of_int n) = n"
  by (simp add: round_half_even_def)

lemma rhe_mono: "x \<le> y \<Longrightarrow> round_half_even x \<le> round_half_even y"
proof -
  assume xy: "x \<le> y"
  then have fl: "\<lfloor>x\<rfloor> \<le> \<lfloor>y\<rfloor>" by (rule floor_mono)
  show ?thesis
  proof (cases "\<lfloor>x\<rfloor> = \<lfloor>y\<rfloor>")
    case True
    with xy show ?thesis
      by (auto simp: round_half_even_def Let_def)
  next
    case False
    with fl have "\<lfloor>x\<rfloor> + 1 \<le> \<lfloor>y\<rfloor>" by simp
    moreover have "round_half_even x \<le> \<lfloor>x\<rfloor> + 1" using rhe_cases [of x] by auto
    moreover have "\<lfloor>y\<rfloor> \<le> round_half_even y" using rhe_cases [of y] by auto
    ultimately show ?thesis by linarith
  qed
qed

lemma rhe_neg: "round_half_even (- y) = - round_half_even y"
proof (cases "y \<in> \<int>")
  case True
  then obtain n where "y = of_int n" by (auto elim: Ints_cases)
  then have "- y = of_int (- n)" by simp
  then show ?thesis using \<open>y = of_int n\<close> by (metis rhe_int)
next
  case False
  then have ne': "y \<noteq> of_int \<lfloor>y\<rfloor>"
    by (metis Ints_of_int)
  then have f: "\<lfloor>- y\<rfloor> = - \<lfloor>y\<rfloor> - 1"
    by (simp add: ceiling_altdef floor_minus)
  have ne: "y - of_int \<lfloor>y\<rfloor> \<noteq> 0" using ne' by simp
  show ?thesis
    using ne by (auto simp: round_half_even_def Let_def f)
qed


lemma pow2_pos [simp]: "0 < (2::rat) powi k"
  by (simp add: power_int_def)

lemma pow2_nat: "0 \<le> k \<Longrightarrow> (2::rat) powi k = 2 ^ nat k"
  by (simp add: power_int_def)

lemma pow2_mono: "a \<le> b \<Longrightarrow> (2::rat) powi a \<le> 2 powi b"
  by (rule power_int_increasing) simp_all

lemma pow2_less_cancel: "(2::rat) powi a < 2 powi b \<Longrightarrow> a < b"
  using pow2_mono [of b a] by (cases "a < b") auto

lemma ilog2_bounds:
  assumes "0 < x"
  shows "2 powi (ilog2 x) \<le> x" and "x < 2 powi (ilog2 x + 1)"
proof -
  obtain p q where pq: "quotient_of x = (p, q)" by (cases "quotient_of x")
  then have q: "0 < q" by (rule quotient_of_denom_pos)
  have x: "x = of_int p / of_int q" using pq by (rule quotient_of_div)
  with assms q have p: "0 < p" by (simp add: zero_less_divide_iff)
  define bp bq where "bp = bitlen p" and "bq = bitlen q"
  have bp1: "1 \<le> bp" and bq1: "1 \<le> bq"
    using p q by (auto simp: bp_def bq_def bitlen_alt_def)
  have "2 ^ nat (bp - 1) \<le> p" "p < 2 ^ nat bp" "2 ^ nat (bq - 1) \<le> q" "q < 2 ^ nat bq"
    using bitlen_bounds [OF p] bitlen_bounds [OF q] by (auto simp: bp_def bq_def)
  then have "(of_int (2 ^ nat (bp - 1)) :: rat) \<le> of_int p" "(of_int p :: rat) < of_int (2 ^ nat bp)"
    "(of_int (2 ^ nat (bq - 1)) :: rat) \<le> of_int q" "(of_int q :: rat) < of_int (2 ^ nat bq)"
    by (simp_all only: of_int_le_iff of_int_less_iff)
  then have P: "2 powi (bp - 1) \<le> (of_int p :: rat)" "(of_int p :: rat) < 2 powi bp"
    and Q: "2 powi (bq - 1) \<le> (of_int q :: rat)" "(of_int q :: rat) < 2 powi bq"
    using bp1 bq1 by (simp_all add: pow2_nat)
  have qpos: "0 < (of_int q :: rat)" using q by simp
  have "x < 2 powi bp / 2 powi (bq - 1)"
    unfolding x using p by (intro frac_less P(2) Q(1)) simp_all
  also have "\<dots> = 2 powi (bp - bq + 1)"
    by (simp add: power_int_diff [symmetric] algebra_simps)
  finally have up: "x < 2 powi (bp - bq + 1)" .
  have "2 powi (bp - 1) / 2 powi bq < x"
    unfolding x using qpos by (intro frac_less2 P(1) Q(2)) simp_all
  moreover have "2 powi (bp - 1) / 2 powi bq = (2::rat) powi (bp - bq - 1)"
    by (simp add: power_int_diff [symmetric] algebra_simps)
  ultimately have lo: "2 powi (bp - bq - 1) < x" by simp
  show "2 powi (ilog2 x) \<le> x"
    using lo by (auto simp: ilog2_def pq Let_def bp_def bq_def)
  show "x < 2 powi (ilog2 x + 1)"
    using up by (auto simp: ilog2_def pq Let_def bp_def bq_def)
qed

lemma rhe_ge: "of_int n \<le> y \<Longrightarrow> n \<le> round_half_even y"
  using rhe_mono [of "of_int n" y] by simp

lemma rhe_le: "y \<le> of_int n \<Longrightarrow> round_half_even y \<le> n"
  using rhe_mono [of y "of_int n"] by simp

lemma pow2_split: "(2::rat) powi e = 2 ^ n * 2 powi (e - int n)"
proof -
  have "(2::rat) powi (int n + (e - int n)) = 2 powi (int n) * 2 powi (e - int n)"
    by (rule power_int_add) simp
  then show ?thesis by simp
qed

lemma fl_zero [simp]: "fl 0 = 0"
  by (simp add: fl_def)

lemma fl_neg: "fl (- x) = - fl x"
  by (simp add: fl_def Let_def rhe_neg)

lemma fl_scaled:
  assumes "0 < x"
  shows "of_int (2 ^ 52) \<le> x / 2 powi (ilog2 x - 52)"
    and "x / 2 powi (ilog2 x - 52) < of_int (2 ^ 53)"
proof -
  let ?u = "(2::rat) powi (ilog2 x - 52)"
  have u: "0 < ?u" by simp
  have "2 ^ 52 * ?u \<le> x"
    using ilog2_bounds(1) [OF assms] pow2_split [of "ilog2 x" 52] by simp
  then show "of_int (2 ^ 52) \<le> x / ?u"
    using u by (simp add: pos_le_divide_eq)
  have "x < 2 ^ 53 * ?u"
    using ilog2_bounds(2) [OF assms] pow2_split [of "ilog2 x + 1" 53] by simp
  then show "x / ?u < of_int (2 ^ 53)"
    using u by (simp add: pos_divide_less_eq)
qed

lemma fl_pos_bounds:
  assumes "0 < x"
  shows "2 powi (ilog2 x) \<le> fl x" and "fl x \<le> 2 powi (ilog2 x + 1)"
proof -
  let ?u = "(2::rat) powi (ilog2 x - 52)"
  let ?m = "round_half_even (x / ?u)"
  have f: "fl x = of_int ?m * ?u" using assms by (simp add: fl_def Let_def)
  have "2 ^ 52 \<le> ?m" by (rule rhe_ge) (rule fl_scaled [OF assms])
  then have "(of_int (2 ^ 52) :: rat) \<le> of_int ?m" by (simp only: of_int_le_iff)
  then have "2 ^ 52 * ?u \<le> of_int ?m * ?u" by (simp add: mult_right_mono)
  then show "2 powi (ilog2 x) \<le> fl x"
    using pow2_split [of "ilog2 x" 52] f by simp
  have "?m \<le> 2 ^ 53" by (rule rhe_le) (rule less_imp_le, rule fl_scaled [OF assms])
  then have "(of_int ?m :: rat) \<le> of_int (2 ^ 53)" by (simp only: of_int_le_iff)
  then have "of_int ?m * ?u \<le> 2 ^ 53 * ?u" by (simp add: mult_right_mono)
  then show "fl x \<le> 2 powi (ilog2 x + 1)"
    using pow2_split [of "ilog2 x + 1" 53] f by simp
qed

lemma fl_pos: "0 < x \<Longrightarrow> 0 < fl x"
  using fl_pos_bounds(1) [of x] pow2_pos [of "ilog2 x"] by linarith

lemma fl_mono_pos:
  assumes "0 < x" "x \<le> y"
  shows "fl x \<le> fl y"
proof -
  have y: "0 < y" using assms by simp
  have "2 powi (ilog2 x) < (2::rat) powi (ilog2 y + 1)"
    using ilog2_bounds(1) [OF assms(1)] ilog2_bounds(2) [OF y] assms(2) by linarith
  then have le: "ilog2 x \<le> ilog2 y" using pow2_less_cancel by fastforce
  show ?thesis
  proof (cases "ilog2 x = ilog2 y")
    case True
    let ?u = "(2::rat) powi (ilog2 y - 52)"
    have "x / ?u \<le> y / ?u" using assms(2) by (simp add: divide_right_mono)
    then have "round_half_even (x / ?u) \<le> round_half_even (y / ?u)" by (rule rhe_mono)
    then have "(of_int (round_half_even (x / ?u)) :: rat) \<le> of_int (round_half_even (y / ?u))"
      by (simp only: of_int_le_iff)
    then have "of_int (round_half_even (x / ?u)) * ?u \<le> of_int (round_half_even (y / ?u)) * ?u"
      by (simp add: mult_right_mono)
    then show ?thesis using assms(1) y True by (simp add: fl_def Let_def)
  next
    case False
    with le have "ilog2 x + 1 \<le> ilog2 y" by simp
    then have "(2::rat) powi (ilog2 x + 1) \<le> 2 powi (ilog2 y)" by (rule pow2_mono)
    with fl_pos_bounds(2) [OF assms(1)] fl_pos_bounds(1) [OF y] show ?thesis by linarith
  qed
qed

lemma fl_mono: "x \<le> y \<Longrightarrow> fl x \<le> fl y"
proof -
  assume xy: "x \<le> y"
  consider "0 < x" | "x = 0" | "x < 0" "0 \<le> y" | "x < 0" "y < 0" by linarith
  then show ?thesis
  proof cases
    case 1
    then show ?thesis using xy by (rule fl_mono_pos)
  next
    case 2
    then show ?thesis using xy fl_pos [of y] by (cases "y = 0") auto
  next
    case 3
    have "fl x < 0" using fl_pos [of "- x"] 3(1) by (simp add: fl_neg)
    moreover have "0 \<le> fl y" using fl_pos [of y] 3(2) by (cases "y = 0") auto
    ultimately show ?thesis by simp
  next
    case 4
    then have "fl (- y) \<le> fl (- x)" using xy by (intro fl_mono_pos) simp_all
    then show ?thesis by (simp add: fl_neg)
  qed
qed

lemma fl_err_pos:
  assumes "0 < x"
  shows "\<bar>fl x - x\<bar> \<le> x / 2 ^ 53"
proof -
  let ?u = "(2::rat) powi (ilog2 x - 52)"
  let ?m = "round_half_even (x / ?u)"
  have u: "0 < ?u" by simp
  have f: "fl x = of_int ?m * ?u" using assms by (simp add: fl_def Let_def)
  have "fl x - x = (of_int ?m - x / ?u) * ?u"
    using u by (simp add: f algebra_simps)
  then have "\<bar>fl x - x\<bar> = \<bar>of_int ?m - x / ?u\<bar> * ?u"
    using u by (simp add: abs_mult)
  also have "\<dots> \<le> (1 / 2) * ?u"
    using rhe_err [of "x / ?u"] u by (intro mult_right_mono) simp_all
  also have "\<dots> = 2 powi (ilog2 x) / 2 ^ 53"
    using pow2_split [of "ilog2 x" 52] by simp
  also have "\<dots> \<le> x / 2 ^ 53"
    using ilog2_bounds(1) [OF assms] by (simp add: divide_right_mono)
  finally show ?thesis .
qed

lemma fl_err: "\<bar>fl x - x\<bar> \<le> \<bar>x\<bar> / 2 ^ 53"
proof -
  consider "0 < x" | "x = 0" | "x < 0" by linarith
  then show ?thesis
  proof cases
    case 1
    then show ?thesis using fl_err_pos [of x] by simp
  next
    case 2
    then show ?thesis by simp
  next
    case 3
    then have "\<bar>fl (- x) - (- x)\<bar> \<le> (- x) / 2 ^ 53" by (intro fl_err_pos) simp
    then show ?thesis using 3 by (simp add: fl_neg abs_minus_commute)
  qed
qed

lemma fl_repr_pos:
  assumes "0 < m" "m < 2 ^ 53"
  shows "fl (of_int m * 2 powi j) = of_int m * 2 powi j"
proof -
  define x :: rat where "x = of_int m * 2 powi j"
  define e where "e = ilog2 x"
  have x: "0 < x" using assms(1) by (simp add: x_def)
  have "(of_int m :: rat) < of_int (2 ^ 53)"
    using assms(2) by (simp only: of_int_less_iff)
  then have "x < 2 ^ 53 * 2 powi j"
    by (simp add: x_def)
  also have "\<dots> = 2 powi (j + 53)"
    using pow2_split [of "j + 53" 53] by simp
  finally have "x < 2 powi (j + 53)" .
  moreover have "2 powi e \<le> x" unfolding e_def by (rule ilog2_bounds(1) [OF x])
  ultimately have "(2::rat) powi e < 2 powi (j + 53)" by linarith
  then have ej: "e < j + 53" by (rule pow2_less_cancel)
  define n where "n = nat (j - (e - 52))"
  have n: "j - int n = e - 52"
    using ej by (simp add: n_def)
  have pj: "(2::rat) powi j = 2 ^ n * 2 powi (e - 52)"
    using pow2_split [of j n] n by simp
  have u: "(2::rat) powi (e - 52) \<noteq> 0" using pow2_pos [of "e - 52"] by linarith
  have "x / 2 powi (e - 52) = of_int (m * 2 ^ n)"
    using u by (simp add: x_def pj)
  then have "round_half_even (x / 2 powi (e - 52)) = m * 2 ^ n"
    by (simp only: rhe_int)
  then have "fl x = of_int (m * 2 ^ n) * 2 powi (e - 52)"
    using x by (simp add: fl_def Let_def e_def)
  also have "\<dots> = x"
    by (simp add: x_def pj)
  finally show ?thesis by (simp add: x_def)
qed

lemma fl_repr:
  assumes "\<bar>m\<bar> < 2 ^ 53"
  shows "fl (of_int m * 2 powi j) = of_int m * 2 powi j"
proof -
  consider "0 < m" | "m = 0" | "m < 0" by linarith
  then show ?thesis
  proof cases
    case 1
    then show ?thesis using assms by (intro fl_repr_pos) simp_all
  next
    case 2
    then show ?thesis by simp
  next
    case 3
    then have "fl (of_int (- m) * 2 powi j) = of_int (- m) * 2 powi j"
      using assms by (intro fl_repr_pos) simp_all
    then show ?thesis using fl_neg [of "of_int m * 2 powi j"] by simp
  qed
qed

lemma fl_of_int: "\<bar>m\<bar> < 2 ^ 53 \<Longrightarrow> fl (of_int m) = of_int m"
  using fl_repr [of m 0] by simp

lemma fl_tenth: "fl (1 / 10) = 3602879701896397 / 36028797018963968"
  \<comment> \<open>the binary64 value of the literal \<open>0.1\<close>\<close>
  by code_simp

lemma fl_eq_0_iff [simp]: "fl x = 0 \<longleftrightarrow> x = 0"
  using fl_pos [of x] fl_pos [of "- x"] by (cases "0 < x"; cases "x = 0") (auto simp: fl_neg)

lemma fl_nonneg: "0 \<le> x \<Longrightarrow> 0 \<le> fl x"
  using fl_mono [of 0 x] by simp

lemma fl_le_int: "\<bar>n\<bar> < 2 ^ 53 \<Longrightarrow> x \<le> of_int n \<Longrightarrow> fl x \<le> of_int n"
  using fl_mono [of x "of_int n"] by (simp add: fl_of_int)

lemma fl_one [simp]: "fl 1 = 1"
  using fl_of_int [of 1] by simp


lemma py_int_of_int [simp]: "py_int (of_int n) = n"
  by (simp add: py_int_def)

lemma py_int_nonneg: "0 \<le> x \<Longrightarrow> py_int x = \<lfloor>x\<rfloor>"
  by (simp add: py_int_def)


lemma float_of_int_small: "\<bar>n\<bar> < 2 ^ 53 \<Longrightarrow> float_of_int n = of_int n"
  by (simp add: float_of_int_def fl_of_int)


section \<open>Data model\<close>

text \<open>
  An RGBA bitmap: its size and its pixels in row-major order, each pixel the four
  channel values \<open>(r, g, b, a)\<close>.
\<close>

type_synonym pixel = "nat \<times> nat \<times> nat \<times> nat"

definition alpha :: "pixel \<Rightarrow> nat" where
  "alpha p = snd (snd (snd p))"

definition transparent :: pixel where
  "transparent = (0, 0, 0, 0)"

record image =
  width :: nat
  height :: nat
  pixels :: "pixel list"

text \<open>
  \<open>WatermarkSettings\<close> of \<open>data_manager.py\<close>. The field \<open>text\<close> is named \<open>wm_text\<close>
  here; it always holds a string, so that \<open>settings.text or ""\<close> is the field itself.
\<close>

record settings =
  wm_type :: string
  wm_text :: string
  text_color :: "int \<times> int \<times> int \<times> int"
  font_path :: "string option"
  font_size :: int
  size_percent :: int
  rotation :: int
  anchor_ratio :: "pyfloat \<times> pyfloat"
  opacity :: int

definition default_settings :: settings where
  "default_settings =
     \<lparr>wm_type = ''text'', wm_text = ''Sample Watermark'', text_color = (255, 255, 255, 200),
      font_path = None, font_size = 36, size_percent = 20, rotation = 0,
      anchor_ratio = (fl (5 / 10), fl (5 / 10)), opacity = 50\<rparr>"

section \<open>The imaging library and the file system\<close>

text \<open>
  What the program calls but does not contain is a parameter of the model: which font
  files exist and load, what a text measures, how the rasteriser draws it, how the
  resampling filters (\<open>LANCZOS\<close> for \<open>resize\<close> and \<open>thumbnail\<close>, \<open>BICUBIC\<close> for
  \<open>rotate\<close>) and the brightness enhancer compute pixel values, how a partially
  transparent mask mixes two pixels, and what opening a file gives.
\<close>

datatype font = TrueType string int | DefaultFont

datatype photo = PhotoImage image

record pil =
  path_exists :: "string \<Rightarrow> bool"
  truetype_loads :: "string \<Rightarrow> int \<Rightarrow> bool"
  textbbox :: "string \<Rightarrow> font \<Rightarrow> (int \<times> int \<times> int \<times> int) option"
  textsize :: "string \<Rightarrow> font \<Rightarrow> py_error + int \<times> int"
  draw_text :: "image \<Rightarrow> int \<times> int \<Rightarrow> string \<Rightarrow> font \<Rightarrow> int \<times> int \<times> int \<times> int \<Rightarrow> image"
  lanczos :: "image \<Rightarrow> nat \<Rightarrow> nat \<Rightarrow> pixel list"
  rotate_expand :: "image \<Rightarrow> int \<Rightarrow> image"
  brightness :: "pyfloat \<Rightarrow> nat \<Rightarrow> nat"
  mix :: "pixel \<Rightarrow> pixel \<Rightarrow> nat \<Rightarrow> pixel"
  open_rgba :: "string \<Rightarrow> py_error + image"
  thumbnail :: "image \<Rightarrow> int \<times> int \<Rightarrow> py_error + image"
  photo_image :: "image \<Rightarrow> py_error + photo"

definition image_new :: "int \<Rightarrow> int \<Rightarrow> pixel \<Rightarrow> py_error + image" where
  \<comment> \<open>\<open>Image.new("RGBA", (w, h), c)\<close>; a negative size raises \<open>ValueError\<close>\<close>
  "image_new w h c =
     (if w < 0 \<or> h < 0 then Inl ValueError
      else Inr \<lparr>width = nat w, height = nat h, pixels = replicate (nat w * nat h) c\<rparr>)"

definition resize :: "pil \<Rightarrow> image \<Rightarrow> int \<Rightarrow> int \<Rightarrow> image" where
  \<comment> \<open>\<open>img.resize((w, h), Image.LANCZOS)\<close>: a new image of exactly that size\<close>
  "resize env img w h = \<lparr>width = nat w, height = nat h, pixels = lanczos env img (nat w) (nat h)\<rparr>"

definition putalpha :: "image \<Rightarrow> nat list \<Rightarrow> image" where
  "putalpha img band =
     img\<lparr>pixels := map2 (\<lambda>(r, g, b, _) a. (r, g, b, a)) (pixels img) band\<rparr>"

section \<open>Text watermark renderer\<close>

definition get_font :: "pil \<Rightarrow> string option \<Rightarrow> int \<Rightarrow> font" where
  "get_font env fp sz =
     (let arial = (if truetype_loads env ''arial.ttf'' sz then TrueType ''arial.ttf'' sz
                   else DefaultFont)
      in case fp of
           None \<Rightarrow> arial
         | Some p \<Rightarrow>
             if p \<noteq> [] \<and> path_exists env p
             then (if truetype_loads env p sz then TrueType p sz else DefaultFont)
             else arial)"

definition measure_text :: "pil \<Rightarrow> string \<Rightarrow> font \<Rightarrow> py_error + int \<times> int" where
  "measure_text env t f =
     (case textbbox env t f of
        Some (x0, y0, x1, y1) \<Rightarrow> Inr (x1 - x0, y1 - y0)
      | None \<Rightarrow> textsize env t f)"

definition logical_size :: "int \<times> int \<Rightarrow> int \<times> int" where
  \<comment> \<open>\<open>if text_w == 0: text_w = text_h = 1\<close>\<close>
  "logical_size m = (if fst m = 0 then (1, 1) else m)"

definition text_alpha :: "int \<Rightarrow> int \<Rightarrow> int" where
  \<comment> \<open>\<open>a = int(a * (settings.opacity / 100.0))\<close>\<close>
  "text_alpha a opac = py_int (fmul (float_of_int a) (fdiv (float_of_int opac) 100))"

definition target_width :: "int \<Rightarrow> int \<Rightarrow> int" where
  \<comment> \<open>\<open>target_w = max(1, int(bg_w * (size_percent / 100.0)))\<close>, in both renderers\<close>
  "target_width bg_w sp = max 1 (py_int (fmul (float_of_int bg_w) (fdiv (float_of_int sp) 100)))"

definition scale_image :: "pil \<Rightarrow> image \<Rightarrow> int \<times> int \<Rightarrow> int \<Rightarrow> int \<Rightarrow> int \<Rightarrow> py_error + image" where
  "scale_image env img bg_size sp text_w padding =
     (let target_w = target_width (fst bg_size) sp
      in case truediv (float_of_int target_w) (float_of_int text_w) of
           Inl e \<Rightarrow> Inl e
         | Inr scale \<Rightarrow>
             let new_w = max 1 (py_int (fmul (float_of_int (text_w + padding * 2)) scale));
                 new_h = max 1 (py_int (fmul (float_of_int (int (height img))) scale))
             in Inr (resize env img new_w new_h))"

definition rotate_image :: "pil \<Rightarrow> image \<Rightarrow> int \<Rightarrow> image" where
  "rotate_image env img rot = rotate_expand env img rot"

definition text_unrotated :: "pil \<Rightarrow> int \<times> int \<Rightarrow> settings \<Rightarrow> py_error + image" where
  \<comment> \<open>\<open>TextWatermarkRenderer.render\<close> up to and including \<open>_scale_image\<close>\<close>
  "text_unrotated env bg_size s =
     (let txt = wm_text s;
          font = get_font env (font_path s) (font_size s)
      in case measure_text env txt font of
           Inl e \<Rightarrow> Inl e
         | Inr m \<Rightarrow>
             let (text_w, text_h) = logical_size m;
                 padding = 20
             in case image_new (text_w + padding * 2) (text_h + padding * 2) transparent of
                  Inl e \<Rightarrow> Inl e
                | Inr txt_img \<Rightarrow>
                    let (r, g, b, a) = text_color s;
                        a' = text_alpha a (opacity s);
                        drawn = draw_text env txt_img (padding, padding) txt font (r, g, b, a')
                    in scale_image env drawn bg_size (size_percent s) text_w padding)"

definition text_render :: "pil \<Rightarrow> int \<times> int \<Rightarrow> settings \<Rightarrow> py_error + image" where
  "text_render env bg_size s =
     (case text_unrotated env bg_size s of
        Inl e \<Rightarrow> Inl e
      | Inr txt_img \<Rightarrow>
          if rotation s mod 360 \<noteq> 0 then Inr (rotate_image env txt_img (rotation s))
          else Inr txt_img)"

section \<open>Image watermark renderer\<close>

definition apply_opacity :: "pil \<Rightarrow> image \<Rightarrow> int \<Rightarrow> image" where
  \<comment> \<open>\<open>alpha = wm.split()[3]; alpha = ImageEnhance.Brightness(alpha).enhance(opacity / 100.0);
      wm.putalpha(alpha)\<close>, when \<open>opacity < 100\<close>\<close>
  "apply_opacity env wm opac =
     (if opac < 100
      then putalpha wm (map (brightness env (fdiv (float_of_int opac) 100)) (map alpha (pixels wm)))
      else wm)"

definition image_unrotated :: "pil \<Rightarrow> image \<Rightarrow> int \<times> int \<Rightarrow> settings \<Rightarrow> py_error + image" where
  \<comment> \<open>\<open>ImageWatermarkRenderer.render\<close> on a loaded asset, up to the rotation step\<close>
  "image_unrotated env asset bg_size s =
     (let wm = asset;
          target_w = target_width (fst bg_size) (size_percent s)
      in case truediv (float_of_int target_w) (float_of_int (int (width wm))) of
           Inl e \<Rightarrow> Inl e
         | Inr scale \<Rightarrow>
             let new_w = max 1 (py_int (fmul (float_of_int (int (width wm))) scale));
                 new_h = max 1 (py_int (fmul (float_of_int (int (height wm))) scale))
             in Inr (apply_opacity env (resize env wm new_w new_h) (opacity s)))"

definition image_render :: "pil \<Rightarrow> image option \<Rightarrow> int \<times> int \<Rightarrow> settings \<Rightarrow> py_error + image" where
  "image_render env watermark_image bg_size s =
     (case watermark_image of
        None \<Rightarrow> image_new 1 1 transparent
      | Some asset \<Rightarrow>
          (case image_unrotated env asset bg_size s of
             Inl e \<Rightarrow> Inl e
           | Inr wm \<Rightarrow>
               if rotation s mod 360 \<noteq> 0 then Inr (rotate_expand env wm (rotation s))
               else Inr wm))"

section \<open>Watermark processor\<close>

definition create_watermark :: "pil \<Rightarrow> image option \<Rightarrow> int \<times> int \<Rightarrow> settings \<Rightarrow> py_error + image" where
  "create_watermark env watermark_image bg_size s =
     (if wm_type s = ''text'' then text_render env bg_size s
      else image_render env watermark_image bg_size s)"

definition placement_center :: "pyfloat \<times> pyfloat \<Rightarrow> int \<times> int \<Rightarrow> int \<times> int" where
  \<comment> \<open>\<open>cx = int(settings.anchor_ratio[0] * orig_w); cy = int(settings.anchor_ratio[1] * orig_h)\<close>\<close>
  "placement_center r sz =
     (py_int (fmul (fst r) (float_of_int (fst sz))), py_int (fmul (snd r) (float_of_int (snd sz))))"

definition top_left_from_center :: "int \<times> int \<Rightarrow> image \<Rightarrow> int \<times> int" where
  \<comment> \<open>\<open>top_left_x = int(cx - watermark.width / 2)\<close>, and the same for \<open>y\<close>\<close>
  "top_left_from_center c wm =
     (py_int (fsub (float_of_int (fst c)) (fdiv (float_of_int (int (width wm))) 2)),
      py_int (fsub (float_of_int (snd c)) (fdiv (float_of_int (int (height wm))) 2)))"

definition paste_masked :: "pil \<Rightarrow> image \<Rightarrow> image \<Rightarrow> int \<times> int \<Rightarrow> image" where
  \<comment> \<open>\<open>dst.paste(src, (x0, y0), src)\<close>: the alpha band of \<open>src\<close> is the mask. Where the mask
      is 0 the pixel of \<open>dst\<close> is kept, where it is 255 the pixel of \<open>src\<close> is copied, in
      between the two are mixed; what falls outside \<open>dst\<close> is clipped.\<close>
  "paste_masked env dst src pos =
     dst\<lparr>pixels :=
       map (\<lambda>k. let i = int (k mod width dst); j = int (k div width dst);
                     old = pixels dst ! k
                 in if fst pos \<le> i \<and> i < fst pos + int (width src)
                       \<and> snd pos \<le> j \<and> j < snd pos + int (height src)
                    then let p = pixels src ! (nat (j - snd pos) * width src + nat (i - fst pos));
                             m = alpha p
                         in if m = 0 then old else if m = 255 then p else mix env old p m
                    else old)
           [0..<length (pixels dst)]\<rparr>"

definition create_overlay :: "pil \<Rightarrow> image option \<Rightarrow> int \<times> int \<Rightarrow> settings \<Rightarrow> py_error + image" where
  "create_overlay env watermark_image original_size s =
     (case image_new (fst original_size) (snd original_size) transparent of
        Inl e \<Rightarrow> Inl e
      | Inr overlay \<Rightarrow>
          (case create_watermark env watermark_image original_size s of
             Inl e \<Rightarrow> Inl e
           | Inr watermark \<Rightarrow>
               let c = placement_center (anchor_ratio s) original_size;
                   pos = top_left_from_center c watermark
               in Inr (paste_masked env overlay watermark pos)))"

section \<open>Image manager\<close>

record image_manager =
  canvas_width :: int
  canvas_height :: int
  original_image :: "image option"
  display_image :: "image option"
  display_photo :: "photo option"

definition new_image_manager :: image_manager where
  "new_image_manager =
     \<lparr>canvas_width = 900, canvas_height = 600, original_image = None, display_image = None,
      display_photo = None\<rparr>"

definition update_display_image :: "pil \<Rightarrow> image_manager \<Rightarrow> py_error option \<times> image_manager" where
  \<comment> \<open>the first component is the exception that left the method, if one did\<close>
  "update_display_image env m =
     (case original_image m of
        None \<Rightarrow> (None, m)
      | Some orig \<Rightarrow>
          (case thumbnail env orig (canvas_width m, canvas_height m) of
             Inl e \<Rightarrow> (Some e, m)
           | Inr img \<Rightarrow>
               let m1 = m\<lparr>display_image := Some img\<rparr>
               in case photo_image env img of
                    Inl e \<Rightarrow> (Some e, m1)
                  | Inr ph \<Rightarrow> (None, m1\<lparr>display_photo := Some ph\<rparr>)))"

definition load_image :: "pil \<Rightarrow> string \<Rightarrow> image_manager \<Rightarrow> bool \<times> image_manager" where
  \<comment> \<open>\<open>open_rgba\<close> is \<open>Image.open(path).convert("RGBA")\<close>; every exception inside the
      \<open>try\<close> block ends in \<open>return False\<close>\<close>
  "load_image env path m =
     (case open_rgba env path of
        Inl e \<Rightarrow> (False, m)
      | Inr img \<Rightarrow>
          (case update_display_image env (m\<lparr>original_image := Some img\<rparr>) of
             (Some e, m') \<Rightarrow> (False, m')
           | (None, m') \<Rightarrow> (True, m')))"


section \<open>User interface: the handlers that write the settings\<close>

text \<open>
  The state of \<open>UIController\<close> and \<open>CanvasController\<close> as far as the handlers read and
  write it. The windowing toolkit is outside the program: what it reports to a handler
  (the canvas coordinates of the dragged item, the chosen preset, the chosen file) is the
  argument of the event.
\<close>

record ui_controller =
  settings :: settings
  image_manager :: image_manager
  watermark_image :: "image option"
  watermark_id :: "nat option"
  pos_var :: string


definition ratio_from_pixel :: "pyfloat \<times> pyfloat \<Rightarrow> int \<times> int \<times> int \<times> int \<Rightarrow> py_error + pyfloat \<times> pyfloat" where
  "ratio_from_pixel c info =
     (case info of (img_x, img_y, img_w, img_h) \<Rightarrow>
        let local_x = max 0 (min (fsub (fst c) (float_of_int img_x)) (float_of_int img_w));
            local_y = max 0 (min (fsub (snd c) (float_of_int img_y)) (float_of_int img_h))
        in case truediv local_x (float_of_int img_w) of
             Inl e \<Rightarrow> Inl e
           | Inr rx \<Rightarrow>
               (case truediv local_y (float_of_int img_h) of
                  Inl e \<Rightarrow> Inl e
                | Inr ry \<Rightarrow> Inr (rx, ry)))"




definition update_watermark_preview :: "pil \<Rightarrow> ui_controller \<Rightarrow> ui_controller" where
  \<comment> \<open>renders the preview and hands it to \<open>CanvasController.update_watermark\<close>, which
      creates the canvas item on its first call\<close>
  "update_watermark_preview env u =
     (case display_image (image_manager u) of
        None \<Rightarrow> u
      | Some d \<Rightarrow>
          (case create_watermark env (watermark_image u) (int (width d), int (height d)) (settings u) of
             Inl e \<Rightarrow> u
           | Inr wm \<Rightarrow>
               (case photo_image env wm of
                  Inl e \<Rightarrow> u
                | Inr ph \<Rightarrow>
                    (case watermark_id u of
                       None \<Rightarrow> u\<lparr>watermark_id := Some 1\<rparr>
                     | Some _ \<Rightarrow> u))))"


definition ui_load_image :: "pil \<Rightarrow> string \<Rightarrow> ui_controller \<Rightarrow> ui_controller" where
  \<comment> \<open>\<open>UIController._load_image\<close>, with the path the file dialog returned\<close>
  "ui_load_image env path u =
     (if path = [] then u
      else case load_image env path (image_manager u) of
             (True, m) \<Rightarrow>
               update_watermark_preview env
                 (u\<lparr>image_manager := m, settings := (settings u)\<lparr>anchor_ratio := (fl (5 / 10), fl (5 / 10))\<rparr>\<rparr>)
           | (False, m) \<Rightarrow> u\<lparr>image_manager := m\<rparr>)"

definition read_settings :: "string \<Rightarrow> int option \<Rightarrow> int option \<Rightarrow> int option \<Rightarrow> int option \<Rightarrow> settings \<Rightarrow> settings" where
  \<comment> \<open>the \<open>try\<close> block of \<open>_update_settings\<close>: the entry gives the text, then the spin box
      and the three sliders are read in turn; \<open>None\<close> is a read that raises, which ends
      the block and leaves the remaining fields as they were\<close>
  "read_settings tx fs sp rot opac s =
     (let s1 = s\<lparr>wm_text := tx\<rparr>
      in case fs of
           None \<Rightarrow> s1
         | Some f \<Rightarrow>
             (case sp of
                None \<Rightarrow> s1\<lparr>font_size := f\<rparr>
              | Some p \<Rightarrow>
                  (case rot of
                     None \<Rightarrow> s1\<lparr>font_size := f, size_percent := p\<rparr>
                   | Some q \<Rightarrow>
                       (case opac of
                          None \<Rightarrow> s1\<lparr>font_size := f, size_percent := p, rotation := q\<rparr>
                        | Some v \<Rightarrow>
                            s1\<lparr>font_size := f, size_percent := p, rotation := q, opacity := v\<rparr>))))"









section \<open>The image renderer on a store of image objects\<close>

text \<open>
  \<open>ImageWatermarkRenderer\<close> holds a reference to its asset, and \<open>putalpha\<close> changes an
  image object in place. To say which objects a call changes, images live in a store
  (a list of image objects, an address is an index); \<open>copy\<close>, \<open>convert\<close>, \<open>resize\<close> and
  \<open>rotate\<close> allocate a new object, \<open>putalpha\<close> overwrites the object it is called on.
  The single-band images of \<open>split\<close> and \<open>enhance\<close> are temporaries that nothing else
  refers to; they are kept as values.
\<close>

type_synonym addr = nat

type_synonym heap = "image list"

definition alloc :: "image \<Rightarrow> heap \<Rightarrow> addr \<times> heap" where
  "alloc img h = (length h, h @ [img])"

record image_renderer =
  watermark_ref :: "addr option"

definition new_image_renderer :: image_renderer where
  "new_image_renderer = \<lparr>watermark_ref = None\<rparr>"

definition set_watermark_image_h :: "addr \<Rightarrow> image_renderer \<Rightarrow> heap \<Rightarrow> image_renderer \<times> heap" where
  \<comment> \<open>\<open>self.watermark_image = image.convert("RGBA")\<close>\<close>
  "set_watermark_image_h image_ref r h =
     (let (a, h1) = alloc (h ! image_ref) h in (r\<lparr>watermark_ref := Some a\<rparr>, h1))"

definition render_h :: "pil \<Rightarrow> image_renderer \<Rightarrow> int \<times> int \<Rightarrow> settings \<Rightarrow> heap \<Rightarrow> (py_error + addr) \<times> heap" where
  "render_h env r bg_size s h =
     (case watermark_ref r of
        None \<Rightarrow>
          (case image_new 1 1 transparent of
             Inl e \<Rightarrow> (Inl e, h)
           | Inr img \<Rightarrow> let (a, h1) = alloc img h in (Inr a, h1))
      | Some asset \<Rightarrow>
          let (wm, h1) = alloc (h ! asset) h;
              target_w = target_width (fst bg_size) (size_percent s)
          in case truediv (float_of_int target_w) (float_of_int (int (width (h1 ! wm)))) of
               Inl e \<Rightarrow> (Inl e, h1)
             | Inr scale \<Rightarrow>
                 let new_w = max 1 (py_int (fmul (float_of_int (int (width (h1 ! wm)))) scale));
                     new_h = max 1 (py_int (fmul (float_of_int (int (height (h1 ! wm)))) scale));
                     (wm2, h2) = alloc (resize env (h1 ! wm) new_w new_h) h1;
                     h3 = (if opacity s < 100
                           then h2[wm2 := putalpha (h2 ! wm2)
                                  (map (brightness env (fdiv (float_of_int (opacity s)) 100))
                                     (map alpha (pixels (h2 ! wm2))))]
                           else h2)
                 in if rotation s mod 360 \<noteq> 0
                    then let (wm3, h4) = alloc (rotate_expand env (h3 ! wm2) (rotation s)) h3
                         in (Inr wm3, h4)
                    else (Inr wm2, h3))"

section \<open>A sample library\<close>

text \<open>
  A small, executable instance of the library parameters, on which the model is
  evaluated at concrete inputs: no font file exists, a text measures ten pixels per
  character by thirty, the rasteriser fills the canvas with the ink, resampling repeats
  the first pixel, rotation returns its argument, and the enhancer multiplies and
  truncates.
\<close>

definition sample_pil :: pil where
  "sample_pil =
     \<lparr>path_exists = (\<lambda>p. False),
      truetype_loads = (\<lambda>p sz. False),
      textbbox = (\<lambda>t f. Some (0, 0, 10 * int (length t), if t = [] then 0 else 30)),
      textsize = (\<lambda>t f. Inl AttributeError),
      draw_text = (\<lambda>img xy t f (r, g, b, a).
                    img\<lparr>pixels := map (\<lambda>_. (nat r, nat g, nat b, nat a)) (pixels img)\<rparr>),
      lanczos = (\<lambda>img w h. replicate (w * h) (case pixels img of [] \<Rightarrow> transparent | p # _ \<Rightarrow> p)),
      rotate_expand = (\<lambda>img rot. img),
      brightness = (\<lambda>f v. nat \<lfloor>of_nat v * f\<rfloor>),
      mix = (\<lambda>old p m. p),
      open_rgba = (\<lambda>p. if p = ''photo.png''
                          then Inr \<lparr>width = 2, height = 1, pixels = [(10, 20, 30, 255), (40, 50, 60, 255)]\<rparr>
                          else Inl OSError),
      thumbnail = (\<lambda>img sz. Inr img),
      photo_image = (\<lambda>img. Inr (PhotoImage img))\<rparr>"

definition strip_69 :: image where
  \<comment> \<open>a watermark asset 69 pixels wide and one pixel high\<close>
  "strip_69 = \<lparr>width = 69, height = 1, pixels = replicate 69 (10, 20, 30, 255)\<rparr>"

text \<open>
  A second instance, on which resampling is not the identity. Its rasteriser covers the
  pixels of the canvas fully or partly, in a fixed pattern, and scales the coverage with
  the alpha of the ink, so that it is monotone in that alpha. Its \<open>resize\<close> and \<open>rotate\<close>
  filter the pixels with the weights \<open>(-1, 9, 9, -1) / 16\<close>, the cubic convolution
  weights at a half-pixel offset: a filter with negative lobes, as \<open>LANCZOS\<close> and
  \<open>BICUBIC\<close> are, rounding down and clipping to \<open>[0,255]\<close>.
\<close>

definition cubic_tap :: "image \<Rightarrow> nat \<Rightarrow> pixel" where
  "cubic_tap img k =
     (let n = length (pixels img)
      in if n = 0 then transparent
         else let A = (\<lambda>i. int (alpha (pixels img ! (i mod n))));
                  v = (9 * A k + 9 * A (k + 1) - A (k + n - 1) - A (k + 2)) div 16;
                  (r, g, b, _) = pixels img ! (k mod n)
              in (r, g, b, nat (max 0 (min 255 v))))"

definition sharp_pil :: pil where
  "sharp_pil =
     sample_pil
       \<lparr>draw_text := (\<lambda>img xy t f (r, g, b, a).
                       img\<lparr>pixels := map (\<lambda>k. (nat r, nat g, nat b,
                                                if k mod 4 = 0 \<or> k mod 4 = 3 then nat a else nat a * 68 div 255))
                                         [0..<length (pixels img)]\<rparr>),
        lanczos := (\<lambda>img w h. map (cubic_tap img) [0..<w * h]),
        rotate_expand := (\<lambda>img rot. img\<lparr>pixels := map (cubic_tap img) [0..<length (pixels img)]\<rparr>)\<rparr>"


section \<open>What the claims say\<close>




definition alpha_le :: "image \<Rightarrow> image \<Rightarrow> bool" where
  \<comment> \<open>two images of the same size, no pixel of the second less opaque than in the first\<close>
  "alpha_le i j =
     (width i = width j \<and> height i = height j
      \<and> list_all2 (\<lambda>p q. alpha p \<le> alpha q) (pixels i) (pixels j))"

definition sprite_alpha_le :: "py_error + image \<Rightarrow> py_error + image \<Rightarrow> bool" where
  "sprite_alpha_le x y =
     (case x of
        Inl e \<Rightarrow> (case y of Inl f \<Rightarrow> e = f | Inr j \<Rightarrow> False)
      | Inr i \<Rightarrow> (case y of Inl f \<Rightarrow> False | Inr j \<Rightarrow> alpha_le i j))"

definition attenuating_enhancer :: "pil \<Rightarrow> bool" where
  \<comment> \<open>the brightness enhancer is monotone in its factor and only attenuates for factors
      up to 1, as blending with a black image does\<close>
  "attenuating_enhancer env =
     ((\<forall>f g v. 0 \<le> f \<and> f \<le> g \<and> g \<le> 1 \<longrightarrow> brightness env f v \<le> brightness env g v)
      \<and> (\<forall>f v. 0 \<le> f \<and> f \<le> 1 \<longrightarrow> brightness env f v \<le> v))"

section \<open>Float error bounds of the scaling arithmetic\<close>

lemma of_int_lt_pow31: "n < 2 ^ 31 \<Longrightarrow> (of_int n :: rat) \<le> 2 ^ 31"
proof -
  assume "n < 2 ^ 31"
  then have "(of_int n :: rat) \<le> of_int (2 ^ 31)" by (simp only: of_int_le_iff)
  then show ?thesis by simp
qed

lemma percent_nonneg:
  assumes "0 \<le> n" "0 \<le> k"
  shows "0 \<le> fmul (float_of_int n) (fdiv (float_of_int k) 100)"
  unfolding fmul_def fdiv_def float_of_int_def using assms
  by (intro fl_nonneg mult_nonneg_nonneg divide_nonneg_nonneg) simp_all










section \<open>Supporting lemmas\<close>

lemma text_unrotated_rotation [simp]:
  "text_unrotated env bg (s\<lparr>rotation := r\<rparr>) = text_unrotated env bg s"
  by (simp add: text_unrotated_def Let_def split: sum.splits prod.splits)

lemma image_unrotated_rotation [simp]:
  "image_unrotated env asset bg (s\<lparr>rotation := r\<rparr>) = image_unrotated env asset bg s"
  by (simp add: image_unrotated_def Let_def split: sum.splits prod.splits)

lemma rotation_multiple_of_360_skipped:
  assumes "rotation s mod 360 = 0"
  shows "text_render env bg s = text_unrotated env bg s
       \<and> image_render env (Some asset) bg s = image_unrotated env asset bg s
       \<and> text_render env bg s = text_render env bg (s\<lparr>rotation := 0\<rparr>)
       \<and> image_render env wmi bg s = image_render env wmi bg (s\<lparr>rotation := 0\<rparr>)"
  using assms
  by (auto simp: text_render_def image_render_def split: sum.splits option.splits)

lemma paste_transparent_pixel:
  assumes "width src = 1" "height src = 1" "pixels src = [p]" "alpha p = 0"
  shows "paste_masked env dst src pos = dst"
proof -
  have "pixels (paste_masked env dst src pos) = pixels dst"
  proof (rule nth_equalityI)
    show "length (pixels (paste_masked env dst src pos)) = length (pixels dst)"
      by (simp add: paste_masked_def)
  next
    fix k
    assume "k < length (pixels (paste_masked env dst src pos))"
    then have k: "k < length (pixels dst)" by (simp add: paste_masked_def)
    have z: "nat (j - snd pos) + nat (i - fst pos) = 0" if "i \<le> fst pos" "j \<le> snd pos" for i j
      using that by simp
    show "pixels (paste_masked env dst src pos) ! k = pixels dst ! k"
      using k by (simp add: paste_masked_def Let_def assms z)
  qed
  moreover have "paste_masked env dst src pos = dst\<lparr>pixels := pixels (paste_masked env dst src pos)\<rparr>"
    by (simp add: paste_masked_def)
  ultimately show ?thesis by simp
qed

lemma float_of_int_eq_0 [simp]: "float_of_int n = 0 \<longleftrightarrow> n = 0"
  by (simp add: float_of_int_def)

lemma scale_image_no_zero_division:
  "text_w \<noteq> 0 \<Longrightarrow> scale_image env img bg sp text_w padding \<noteq> Inl ZeroDivisionError"
  by (simp add: scale_image_def truediv_def Let_def)

lemma axis_round_trip:
  assumes "0 \<le> r" "r \<le> 1" "0 < W" "W < 2 ^ 31"
  shows "\<exists>r'. truediv (max 0 (min (fsub (float_of_int (py_int (fmul r (float_of_int W)))) (float_of_int 0))
                                  (float_of_int W))) (float_of_int W) = Inr r'
            \<and> \<bar>r' - r\<bar> \<le> 1 / of_int W + 1 / 2 ^ 50 \<and> 0 \<le> r' \<and> r' \<le> 1"
proof -
  define w :: rat where "w = of_int W"
  have Wf: "float_of_int W = w" unfolding w_def using assms by (intro float_of_int_small) simp
  have w0: "0 < w" using assms by (simp add: w_def)
  have wb: "w \<le> 2 ^ 31" unfolding w_def using assms by (intro of_int_lt_pow31)
  define v where "v = fl (r * w)"
  define c where "c = \<lfloor>v\<rfloor>"
  have rw0: "0 \<le> r * w" using assms w0 by simp
  have rww: "r * w \<le> w" using assms w0 by (simp add: mult_left_le_one_le)
  have v0: "0 \<le> v" unfolding v_def using rw0 by (rule fl_nonneg)
  have vW: "v \<le> w" unfolding v_def w_def using assms rww by (intro fl_le_int) (simp_all add: w_def)
  have c0: "0 \<le> c" using v0 by (simp add: c_def)
  have "c \<le> \<lfloor>w\<rfloor>" unfolding c_def using vW by (rule floor_mono)
  then have cW: "c \<le> W" by (simp add: w_def)
  have pc: "py_int (fmul r (float_of_int W)) = c"
    using v0 by (simp add: fmul_def Wf v_def [symmetric] py_int_nonneg c_def)
  have cf: "float_of_int c = of_int c" using c0 cW assms by (intro float_of_int_small) simp
  have sub: "fsub (float_of_int c) (float_of_int 0) = of_int c"
    using cf by (simp add: fsub_def float_of_int_def)
  have cr: "(of_int c :: rat) \<le> w" using cW by (simp add: w_def)
  have cr0: "(0 :: rat) \<le> of_int c" using c0 by simp
  have loc: "max 0 (min (fsub (float_of_int c) (float_of_int 0)) (float_of_int W)) = (of_int c :: rat)"
    using cr cr0 by (simp add: sub Wf)
  define r' where "r' = fl (of_int c / w)"
  have d: "truediv (of_int c) (float_of_int W) = Inr r'"
    using w0 by (simp add: truediv_def fdiv_def Wf r'_def)
  define q :: rat where "q = of_int c / w"
  have q0: "0 \<le> q" using cr0 w0 by (simp add: q_def)
  have q1: "q \<le> 1" using cr w0 by (simp add: q_def)
  have r'0: "0 \<le> r'" unfolding r'_def q_def [symmetric] using q0 by (rule fl_nonneg)
  have "r' \<le> of_int 1" unfolding r'_def q_def [symmetric] using q1 by (intro fl_le_int) simp_all
  then have r'1: "r' \<le> 1" by simp
  have "\<bar>r' - q\<bar> \<le> \<bar>q\<bar> / 2 ^ 53" unfolding r'_def q_def [symmetric] by (rule fl_err)
  then have e2: "\<bar>r' - q\<bar> \<le> 1 / 2 ^ 53"
    using q0 q1 by (simp add: divide_le_eq) 
  have "\<bar>v - r * w\<bar> \<le> \<bar>r * w\<bar> / 2 ^ 53" unfolding v_def by (rule fl_err)
  also have "\<dots> \<le> w / 2 ^ 53" using rw0 rww by (simp add: divide_right_mono)
  finally have e1: "\<bar>v - r * w\<bar> \<le> w / 2 ^ 53" .
  have c1: "of_int c \<le> v" "v < of_int c + 1" unfolding c_def by linarith+
  have "\<bar>of_int c - r * w\<bar> \<le> 1 + w / 2 ^ 53" using c1 e1 by linarith
  then have "\<bar>of_int c - r * w\<bar> / w \<le> (1 + w / 2 ^ 53) / w"
    using w0 by (intro divide_right_mono) simp_all
  moreover have "\<bar>of_int c - r * w\<bar> / w = \<bar>q - r\<bar>"
  proof -
    have "q - r = (of_int c - r * w) / w" using w0 by (simp add: q_def diff_divide_distrib)
    then show ?thesis using w0 by (simp add: abs_divide)
  qed
  moreover have "(1 + w / 2 ^ 53) / w = 1 / w + 1 / 2 ^ 53" using w0 by (simp add: add_divide_distrib)
  ultimately have e3: "\<bar>q - r\<bar> \<le> 1 / w + 1 / 2 ^ 53" by simp
  have "(1 :: rat) / 2 ^ 53 + 1 / 2 ^ 53 \<le> 1 / 2 ^ 50" by simp
  with e2 e3 have "\<bar>r' - r\<bar> \<le> 1 / w + 1 / 2 ^ 50" by linarith
  then show ?thesis
    using d r'0 r'1 by (simp only: pc loc w_def) blast
qed


lemma sample_measure:
  "measure_text sample_pil t f = Inr (10 * int (length t), if t = [] then 0 else 30)"
  by (simp add: measure_text_def sample_pil_def)





lemma settings_update_watermark_preview [simp]:
  "settings (update_watermark_preview env u) = settings u"
  by (simp add: update_watermark_preview_def split: option.splits sum.splits)

lemma anchor_ratio_read_settings [simp]:
  "anchor_ratio (read_settings tx fs sp rot opac s) = anchor_ratio s"
  by (simp add: read_settings_def Let_def split: option.splits)



lemma image_manager_update_watermark_preview [simp]:
  "image_manager (update_watermark_preview env u) = image_manager u"
  by (simp add: update_watermark_preview_def split: option.splits sum.splits)

lemma alloc_simps [simp]:
  "fst (alloc img h) = length h" "snd (alloc img h) = h @ [img]"
  by (simp_all add: alloc_def)

lemma render_h_frame:
  assumes "render_h env r bg s h = (res, h')"
  shows "length h \<le> length h' \<and> (\<forall>b < length h. h' ! b = h ! b)"
  using assms
  by (auto simp: render_h_def alloc_def Let_def image_new_def nth_append nth_list_update
      split: option.splits sum.splits if_splits prod.splits)

lemma render_h_value:
  assumes "watermark_ref r = Some a" "a < length h" "render_h env r bg s h = (res, h')"
  shows "map_sum id ((!) h') res = image_render env (Some (h ! a)) bg s"
  using assms
  by (auto simp: render_h_def alloc_def Let_def image_render_def image_unrotated_def apply_opacity_def
      nth_append nth_list_update split: option.splits sum.splits if_splits prod.splits)



lemma alpha_le_refl [simp]: "alpha_le i i"
  by (simp add: alpha_le_def list_all2_same)

lemma sprite_alpha_le_refl [simp]: "sprite_alpha_le x x"
  by (cases x) (simp_all add: sprite_alpha_le_def)




lemma text_alpha_nonneg:
  assumes "0 \<le> a" "0 \<le> opac"
  shows "0 \<le> text_alpha a opac"
proof -
  have "0 \<le> fmul (float_of_int a) (fdiv (float_of_int opac) 100)"
    using assms by (rule percent_nonneg)
  then show ?thesis by (simp add: text_alpha_def py_int_nonneg)
qed



lemma alpha_quad [simp]: "alpha (r, g, b, a) = a"
  by (simp add: alpha_def)




lemma sample_pil_enhancer: "attenuating_enhancer sample_pil"
proof -
  have b1: "nat \<lfloor>of_nat v * f\<rfloor> \<le> nat \<lfloor>of_nat v * g\<rfloor>" if "f \<le> g" for f g :: rat and v :: nat
    using that by (intro nat_mono floor_mono mult_left_mono) simp_all
  have b2: "nat \<lfloor>of_nat v * f\<rfloor> \<le> v" if "f \<le> 1" for f :: rat and v :: nat
  proof -
    have "of_nat v * f \<le> of_nat v * 1" using that by (intro mult_left_mono) simp_all
    then have "\<lfloor>of_nat v * f\<rfloor> \<le> \<lfloor>(of_nat v :: rat)\<rfloor>" by (intro floor_mono) simp
    then show ?thesis by simp
  qed
  show ?thesis
    unfolding attenuating_enhancer_def by (simp add: sample_pil_def b1 b2)
qed

lemma sharp_pil_enhancer: "attenuating_enhancer sharp_pil"
  using sample_pil_enhancer by (simp add: attenuating_enhancer_def sharp_pil_def)



lemma sharp_draw_length [simp]:
  "length (pixels (draw_text sharp_pil img xy t f c)) = length (pixels img)"
  by (cases c) (simp add: sharp_pil_def)

lemma sharp_draw_height [simp]:
  "height (draw_text sharp_pil img xy t f c) = height img"
  by (cases c) (simp add: sharp_pil_def)



lemma sharp_lanczos_length [simp]: "length (lanczos sharp_pil img w h) = w * h"
  by (simp add: sharp_pil_def)

lemma sharp_rasteriser_monotone:
  assumes "a1 \<le> a2"
  shows "alpha_le (draw_text sharp_pil img xy t f (r, g, b, a1)) (draw_text sharp_pil img xy t f (r, g, b, a2))"
proof -
  have "nat a1 \<le> nat a2" using assms by (rule nat_mono)
  then have "nat a1 * 68 div 255 \<le> nat a2 * 68 div 255"
    by (intro div_le_mono mult_le_mono1)
  with \<open>nat a1 \<le> nat a2\<close> show ?thesis
    by (simp add: alpha_le_def sharp_pil_def list_all2_map1 list_all2_map2 list_all2_same alpha_def)
qed



section \<open>Properties of the renderers\<close>




text \<open>
  C2, as the code has it. Whatever the text and the font, a measured width of zero is
  replaced by the logical size 1x1, any other measured size is kept as it is (also with
  a height of zero), the logical width is never zero, and so the renderer never raises
  \<open>ZeroDivisionError\<close> when it divides \<open>target_w\<close> by the logical text width.
\<close>

theorem zero_width_substituted:
  assumes "measure_text env (wm_text s) (get_font env (font_path s) (font_size s)) = Inr m"
  shows "(fst m = 0 \<longrightarrow> logical_size m = (1, 1))
       \<and> (fst m \<noteq> 0 \<longrightarrow> logical_size m = m)
       \<and> fst (logical_size m) \<noteq> 0
       \<and> text_render env bg s \<noteq> Inl ZeroDivisionError"
proof -
  have nz: "fst (logical_size m) \<noteq> 0" by (simp add: logical_size_def)
  obtain tw th where l: "logical_size m = (tw, th)" by (cases "logical_size m")
  with nz have tw: "tw \<noteq> 0" by simp
  obtain r g b a where c: "text_color s = (r, g, b, a)" by (cases "text_color s") auto
  have "text_unrotated env bg s \<noteq> Inl ZeroDivisionError"
    using scale_image_no_zero_division [OF tw]
    by (simp add: text_unrotated_def Let_def assms l c image_new_def)
  then have "text_render env bg s \<noteq> Inl ZeroDivisionError"
    by (auto simp: text_render_def split: sum.splits)
  then show ?thesis using nz by (simp add: logical_size_def)
qed

theorem zero_width_substituted_witness:
  "measure_text sample_pil (wm_text (default_settings\<lparr>wm_text := []\<rparr>))
     (get_font sample_pil (font_path (default_settings\<lparr>wm_text := []\<rparr>))
        (font_size (default_settings\<lparr>wm_text := []\<rparr>))) = Inr (0, 0)
   \<and> logical_size (0, 0) = (1, 1)
   \<and> text_render sample_pil (100, 80) (default_settings\<lparr>wm_text := []\<rparr>) \<noteq> Inl ZeroDivisionError"
proof -
  have m: "measure_text sample_pil (wm_text (default_settings\<lparr>wm_text := []\<rparr>))
     (get_font sample_pil (font_path (default_settings\<lparr>wm_text := []\<rparr>))
        (font_size (default_settings\<lparr>wm_text := []\<rparr>))) = Inr (0, 0)"
    by (simp add: sample_measure)
  from zero_width_substituted [OF m, of "(100, 80)"] m show ?thesis by simp
qed

text \<open>
  C2, as stated, fails: a measured bounding box five pixels wide and zero pixels high (a
  text of blanks) is not replaced by 1x1; only a zero width is tested.
\<close>

theorem logical_size_zero_height_kept:
  "logical_size (5, 0) = (5, 0) \<and> logical_size (5, 0) \<noteq> (1, 1)"
  by (simp add: logical_size_def)




text \<open>
  C4, as the code has it. The pixel centre is truncated to whole pixels
  (\<open>int(ratio * size)\<close>), so converting it back gives the ratio of a whole pixel: for an
  anchor ratio in the unit square and a container of positive size below \<open>2^31\<close>, the
  round trip returns a ratio in the unit square that differs from the original by at
  most one pixel, \<open>1 / size\<close>, per axis (and a float error below \<open>2^-50\<close>).
\<close>

theorem anchor_round_trip_bound:
  assumes "0 \<le> fst r" "fst r \<le> 1" "0 \<le> snd r" "snd r \<le> 1"
    and "0 < W" "W < 2 ^ 31" "0 < H" "H < 2 ^ 31"
  shows "\<exists>r'. ratio_from_pixel (float_of_int (fst (placement_center r (W, H))),
                                 float_of_int (snd (placement_center r (W, H)))) (0, 0, W, H) = Inr r'
            \<and> \<bar>fst r' - fst r\<bar> \<le> 1 / of_int W + 1 / 2 ^ 50
            \<and> \<bar>snd r' - snd r\<bar> \<le> 1 / of_int H + 1 / 2 ^ 50
            \<and> 0 \<le> fst r' \<and> fst r' \<le> 1 \<and> 0 \<le> snd r' \<and> snd r' \<le> 1"
proof -
  obtain rx where rx: "truediv (max 0 (min (fsub (float_of_int (py_int (fmul (fst r) (float_of_int W)))) (float_of_int 0))
                                  (float_of_int W))) (float_of_int W) = Inr rx"
    and bx: "\<bar>rx - fst r\<bar> \<le> 1 / of_int W + 1 / 2 ^ 50" "0 \<le> rx" "rx \<le> 1"
    using axis_round_trip [OF assms(1,2,5,6)] by blast
  obtain ry where ry: "truediv (max 0 (min (fsub (float_of_int (py_int (fmul (snd r) (float_of_int H)))) (float_of_int 0))
                                  (float_of_int H))) (float_of_int H) = Inr ry"
    and by': "\<bar>ry - snd r\<bar> \<le> 1 / of_int H + 1 / 2 ^ 50" "0 \<le> ry" "ry \<le> 1"
    using axis_round_trip [OF assms(3,4,7,8)] by blast
  have "ratio_from_pixel (float_of_int (fst (placement_center r (W, H))),
                          float_of_int (snd (placement_center r (W, H)))) (0, 0, W, H) = Inr (rx, ry)"
    by (simp only: ratio_from_pixel_def placement_center_def prod.case fst_conv snd_conv Let_def rx ry sum.case)
  then show ?thesis using bx by' by (intro exI [of _ "(rx, ry)"]) simp
qed

theorem anchor_round_trip_witness:
  "(0::rat) \<le> fst (1 / 2, 1 / 2) \<and> fst (1 / 2 :: rat, 1 / 2 :: rat) \<le> 1
   \<and> (0::int) < 3 \<and> (3::int) < 2 ^ 31
   \<and> (\<exists>r'. ratio_from_pixel (float_of_int (fst (placement_center (1 / 2, 1 / 2) (3, 3))),
                                float_of_int (snd (placement_center (1 / 2, 1 / 2) (3, 3)))) (0, 0, 3, 3) = Inr r'
            \<and> \<bar>fst r' - fst (1 / 2 :: rat, 1 / 2 :: rat)\<bar> \<le> 1 / of_int 3 + 1 / 2 ^ 50
            \<and> \<bar>snd r' - snd (1 / 2 :: rat, 1 / 2 :: rat)\<bar> \<le> 1 / of_int 3 + 1 / 2 ^ 50
            \<and> 0 \<le> fst r' \<and> fst r' \<le> 1 \<and> 0 \<le> snd r' \<and> snd r' \<le> 1)"
proof -
  have h: "(0::rat) \<le> fst (1 / 2, 1 / 2)" "fst (1 / 2 :: rat, 1 / 2 :: rat) \<le> 1"
    "(0::rat) \<le> snd (1 / 2, 1 / 2)" "snd (1 / 2 :: rat, 1 / 2 :: rat) \<le> 1"
    "(0::int) < 3" "(3::int) < 2 ^ 31" "(0::int) < 3" "(3::int) < 2 ^ 31"
    by simp_all
  from anchor_round_trip_bound [OF h] h show ?thesis by (intro conjI) 
qed

text \<open>
  C4, as stated, fails: the anchor \<open>(0.5, 0.5)\<close> in a 3x3 container is placed at pixel
  \<open>(1, 1)\<close>, which converts back to \<open>(0.333\<dots>, 0.333\<dots>)\<close>, more than 0.1 away from 0.5.
\<close>

theorem anchor_round_trip_loses_fraction:
  "ratio_from_pixel (float_of_int (fst (placement_center (1 / 2, 1 / 2) (3, 3))),
                     float_of_int (snd (placement_center (1 / 2, 1 / 2) (3, 3)))) (0, 0, 3, 3)
     = Inr (6004799503160661 / 18014398509481984, 6004799503160661 / 18014398509481984)
   \<and> \<not> \<bar>6004799503160661 / 18014398509481984 - 1 / 2\<bar> \<le> (1 / 10 :: rat)"
  by code_simp



text \<open>
  C6. With no watermark asset set and the kind \<open>image\<close>, \<open>create_watermark\<close> returns a
  1x1 sprite whose only pixel is fully transparent (alpha 0), and for every background
  size \<open>create_overlay\<close> returns a canvas of exactly that size in which every pixel is
  fully transparent.
\<close>

theorem missing_asset_overlay:
  assumes "wm_type s = ''image''"
  shows "create_watermark env None bg s = Inr \<lparr>width = 1, height = 1, pixels = [transparent]\<rparr>
       \<and> alpha transparent = 0
       \<and> create_overlay env None (int W, int H) s
           = Inr \<lparr>width = W, height = H, pixels = replicate (W * H) transparent\<rparr>"
proof -
  have w: "create_watermark env None b s = Inr \<lparr>width = 1, height = 1, pixels = [transparent]\<rparr>" for b
    using assms by (simp add: create_watermark_def image_render_def image_new_def)
  have a: "alpha transparent = 0" by (simp add: alpha_def transparent_def)
  have "create_overlay env None (int W, int H) s
          = Inr \<lparr>width = W, height = H, pixels = replicate (W * H) transparent\<rparr>"
    by (simp add: w create_overlay_def image_new_def Let_def paste_transparent_pixel [OF _ _ _ a])
  with w a show ?thesis by simp
qed

theorem missing_asset_overlay_witness:
  "wm_type (default_settings\<lparr>wm_type := ''image''\<rparr>) = ''image''
   \<and> create_watermark sample_pil None (3, 2) (default_settings\<lparr>wm_type := ''image''\<rparr>)
       = Inr \<lparr>width = 1, height = 1, pixels = [transparent]\<rparr>
   \<and> create_overlay sample_pil None (int 3, int 2) (default_settings\<lparr>wm_type := ''image''\<rparr>)
       = Inr \<lparr>width = 3, height = 2, pixels = replicate (3 * 2) transparent\<rparr>"
proof -
  have h: "wm_type (default_settings\<lparr>wm_type := ''image''\<rparr>) = ''image''" by simp
  from missing_asset_overlay [OF h, of sample_pil "(3, 2)" 3 2] h show ?thesis by simp
qed

text \<open>
  C7. If opening or decoding the background image fails, \<open>load_image\<close> returns
  \<open>False\<close> and leaves the image manager exactly as it was: the original image, the
  preview copy and the photo made from it; the user interface state is unchanged too.
\<close>

theorem failed_load_keeps_images:
  assumes "open_rgba env path = Inl e"
  shows "load_image env path m = (False, m) \<and> ui_load_image env path u = u"
  using assms by (simp add: load_image_def ui_load_image_def)

theorem failed_load_keeps_images_witness:
  "open_rgba sample_pil ''missing.png'' = Inl OSError
   \<and> load_image sample_pil ''photo.png'' new_image_manager
       = (True, new_image_manager
            \<lparr>original_image := Some \<lparr>width = 2, height = 1, pixels = [(10, 20, 30, 255), (40, 50, 60, 255)]\<rparr>,
             display_image := Some \<lparr>width = 2, height = 1, pixels = [(10, 20, 30, 255), (40, 50, 60, 255)]\<rparr>,
             display_photo := Some (PhotoImage \<lparr>width = 2, height = 1, pixels = [(10, 20, 30, 255), (40, 50, 60, 255)]\<rparr>)\<rparr>)
   \<and> load_image sample_pil ''missing.png'' (snd (load_image sample_pil ''photo.png'' new_image_manager))
       = (False, snd (load_image sample_pil ''photo.png'' new_image_manager))"
proof -
  have h: "open_rgba sample_pil ''missing.png'' = Inl OSError" by (simp add: sample_pil_def)
  have l: "load_image sample_pil ''photo.png'' new_image_manager
       = (True, new_image_manager
            \<lparr>original_image := Some \<lparr>width = 2, height = 1, pixels = [(10, 20, 30, 255), (40, 50, 60, 255)]\<rparr>,
             display_image := Some \<lparr>width = 2, height = 1, pixels = [(10, 20, 30, 255), (40, 50, 60, 255)]\<rparr>,
             display_photo := Some (PhotoImage \<lparr>width = 2, height = 1, pixels = [(10, 20, 30, 255), (40, 50, 60, 255)]\<rparr>)\<rparr>)"
    by (simp add: load_image_def update_display_image_def sample_pil_def new_image_manager_def)
  from failed_load_keeps_images [OF h, of "snd (load_image sample_pil ''photo.png'' new_image_manager)"] h l
  show ?thesis by simp
qed

text \<open>
  C8. For every settings value, rendering with rotation 0 and with rotation 360 skips
  the rotation step: both renderers return the sprite as it is before rotation, equal in
  size and in every pixel, and that sprite does not depend on the rotation field.
\<close>

theorem rotation_0_and_360_noop:
  "text_render env bg (s\<lparr>rotation := 0\<rparr>) = text_unrotated env bg s
   \<and> text_render env bg (s\<lparr>rotation := 360\<rparr>) = text_unrotated env bg s
   \<and> image_render env (Some asset) bg (s\<lparr>rotation := 0\<rparr>) = image_unrotated env asset bg s
   \<and> image_render env (Some asset) bg (s\<lparr>rotation := 360\<rparr>) = image_unrotated env asset bg s
   \<and> image_render env None bg (s\<lparr>rotation := 360\<rparr>) = image_render env None bg (s\<lparr>rotation := 0\<rparr>)"
  by (auto simp: text_render_def image_render_def split: sum.splits option.splits)




text \<open>
  C10. Rendering never changes the stored watermark asset. After
  \<open>set_watermark_image\<close> the renderer refers to an object of its own, a copy of the
  image it was given; every call of \<open>render\<close> leaves that object, and every other object
  that existed before the call, as it was, and returns what rendering the original
  asset gives; so does every later call.
\<close>

theorem render_keeps_stored_asset:
  assumes "ia < length h0"
    and "set_watermark_image_h ia r0 h0 = (r1, h1)"
    and "render_h env r1 bg s h1 = (res, h2)"
  shows "\<exists>a. watermark_ref r1 = Some a \<and> a < length h2
           \<and> h1 ! a = h0 ! ia \<and> h2 ! a = h1 ! a
           \<and> (\<forall>b < length h1. h2 ! b = h1 ! b)
           \<and> map_sum id ((!) h2) res = image_render env (Some (h0 ! ia)) bg s
           \<and> (\<forall>bg' s'. map_sum id ((!) (snd (render_h env r1 bg' s' h2))) (fst (render_h env r1 bg' s' h2))
                 = image_render env (Some (h0 ! ia)) bg' s')"
proof -
  define a where "a = length h0"
  have r1: "watermark_ref r1 = Some a" and h1: "h1 = h0 @ [h0 ! ia]"
    using assms(2) by (auto simp: set_watermark_image_h_def alloc_def a_def)
  have a1: "a < length h1" and v1: "h1 ! a = h0 ! ia" by (simp_all add: h1 a_def)
  have fr: "length h1 \<le> length h2 \<and> (\<forall>b < length h1. h2 ! b = h1 ! b)"
    using assms(3) by (rule render_h_frame)
  then have a2: "a < length h2" and v2: "h2 ! a = h1 ! a" using a1 by auto
  have val: "map_sum id ((!) h2) res = image_render env (Some (h0 ! ia)) bg s"
    using render_h_value [OF r1 a1 assms(3)] v1 by simp
  have later: "map_sum id ((!) (snd (render_h env r1 bg' s' h2))) (fst (render_h env r1 bg' s' h2))
                 = image_render env (Some (h0 ! ia)) bg' s'" for bg' s'
    using render_h_value [OF r1 a2, of env bg' s' "fst (render_h env r1 bg' s' h2)" "snd (render_h env r1 bg' s' h2)"]
      v1 v2 by simp
  show ?thesis using r1 a2 v1 v2 fr val later by blast
qed

theorem render_keeps_stored_asset_witness:
  "(0::nat) < length [strip_69]
   \<and> set_watermark_image_h 0 new_image_renderer [strip_69]
       = (\<lparr>watermark_ref = Some 1\<rparr>, [strip_69, strip_69])
   \<and> render_h sample_pil \<lparr>watermark_ref = Some 1\<rparr> (27, 20) default_settings [strip_69, strip_69]
       = (Inr 3, [strip_69, strip_69, strip_69, \<lparr>width = 5, height = 1, pixels = replicate 5 (10, 20, 30, 127)\<rparr>])
   \<and> (\<exists>a. watermark_ref \<lparr>watermark_ref = Some 1\<rparr> = Some a
          \<and> a < length [strip_69, strip_69, strip_69, \<lparr>width = 5, height = 1, pixels = replicate 5 (10, 20, 30, 127)\<rparr>]
          \<and> [strip_69, strip_69, strip_69, \<lparr>width = 5, height = 1, pixels = replicate 5 (10, 20, 30, 127)\<rparr>] ! a
              = [strip_69, strip_69] ! a)"
proof -
  have h: "(0::nat) < length [strip_69]" by simp
  have s: "set_watermark_image_h 0 new_image_renderer [strip_69]
       = (\<lparr>watermark_ref = Some 1\<rparr>, [strip_69, strip_69])"
    by (simp add: set_watermark_image_h_def alloc_def new_image_renderer_def)
  have r: "render_h sample_pil \<lparr>watermark_ref = Some 1\<rparr> (27, 20) default_settings [strip_69, strip_69]
       = (Inr 3, [strip_69, strip_69, strip_69, \<lparr>width = 5, height = 1, pixels = replicate 5 (10, 20, 30, 127)\<rparr>])"
    by code_simp
  from render_keeps_stored_asset [OF h s r] h s r show ?thesis by blast
qed

end
